theory Spec2Isabelle
  imports Main
begin

section \<open>Python string primitives used by effectiveT3.py\<close>

text \<open>
  The script is Python 2: a \<open>str\<close> is a sequence of bytes, which is what \<open>string\<close>
  (a list of 8-bit \<open>char\<close>) is. The characters the script names by escape sequences:
\<close>

abbreviation TAB :: char where "TAB \<equiv> CHR 0x09"
abbreviation LF :: char where "LF \<equiv> CHR 0x0A"
abbreviation CR :: char where "CR \<equiv> CHR 0x0D"

definition is_space :: "char \<Rightarrow> bool" where
  \<comment> \<open>the characters \<open>str.strip()\<close> and \<open>float()\<close> treat as whitespace\<close>
  "is_space c \<longleftrightarrow> c = CHR '' '' \<or> c = TAB \<or> c = LF \<or> c = CHR 0x0B \<or> c = CHR 0x0C \<or> c = CR"

definition is_digit :: "char \<Rightarrow> bool" where
  "is_digit c \<longleftrightarrow> 48 \<le> (of_char c :: nat) \<and> (of_char c :: nat) \<le> 57"

definition strip :: "string \<Rightarrow> string" where
  \<comment> \<open>\<open>s.strip()\<close>\<close>
  "strip s = rev (dropWhile is_space (rev (dropWhile is_space s)))"

definition rstrip_crlf :: "string \<Rightarrow> string" where
  \<comment> \<open>\<open>s.rstrip("\r\n")\<close>: drops every trailing CR and LF\<close>
  "rstrip_crlf s = rev (dropWhile (\<lambda>c. c = CR \<or> c = LF) (rev s))"

definition lower_char :: "char \<Rightarrow> char" where
  "lower_char c = (let n = (of_char c :: nat) in if 65 \<le> n \<and> n \<le> 90 then char_of (n + 32) else c)"

definition lower :: "string \<Rightarrow> string" where
  \<comment> \<open>\<open>s.lower()\<close>\<close>
  "lower s = map lower_char s"

definition startswith :: "string \<Rightarrow> string \<Rightarrow> bool" where
  \<comment> \<open>\<open>s.startswith(p)\<close>\<close>
  "startswith s p \<longleftrightarrow> take (length p) s = p"

definition endswith :: "string \<Rightarrow> string \<Rightarrow> bool" where
  \<comment> \<open>\<open>s.endswith(p)\<close>\<close>
  "endswith s p \<longleftrightarrow> length p \<le> length s \<and> drop (length s - length p) s = p"

fun find_str :: "string \<Rightarrow> string \<Rightarrow> nat option" where
  \<comment> \<open>\<open>s.find(sep)\<close>, with \<open>None\<close> for Python's -1\<close>
  "find_str sep [] = (if sep = [] then Some 0 else None)"
| "find_str sep (x # xs) =
     (if startswith (x # xs) sep then Some 0 else map_option Suc (find_str sep xs))"

definition contains :: "string \<Rightarrow> string \<Rightarrow> bool" where
  \<comment> \<open>\<open>sep in s\<close>\<close>
  "contains s sep \<longleftrightarrow> find_str sep s \<noteq> None"

definition split1 :: "string \<Rightarrow> string \<Rightarrow> string list" where
  \<comment> \<open>\<open>s.split(sep, 1)\<close>: cut at the first occurrence of \<open>sep\<close>, if there is one\<close>
  "split1 sep s =
     (case find_str sep s of
        None \<Rightarrow> [s]
      | Some i \<Rightarrow> [take i s, drop (i + length sep) s])"

fun split_char :: "char \<Rightarrow> nat \<Rightarrow> string \<Rightarrow> string list" where
  \<comment> \<open>\<open>s.split(c, n)\<close> for a one-character separator: at most \<open>n\<close> cuts, from the left\<close>
  "split_char c 0 s = [s]"
| "split_char c (Suc n) s =
     (if c \<in> set s
      then takeWhile (\<lambda>x. x \<noteq> c) s # split_char c n (tl (dropWhile (\<lambda>x. x \<noteq> c) s))
      else [s])"

definition rsplit_char :: "char \<Rightarrow> nat \<Rightarrow> string \<Rightarrow> string list" where
  \<comment> \<open>\<open>s.rsplit(c, n)\<close>: at most \<open>n\<close> cuts, from the right\<close>
  "rsplit_char c n s = rev (map rev (split_char c n (rev s)))"

fun join :: "string \<Rightarrow> string list \<Rightarrow> string" where
  \<comment> \<open>\<open>sep.join(xs)\<close>\<close>
  "join sep [] = []"
| "join sep [x] = x"
| "join sep (x # y # ys) = x @ sep @ join sep (y # ys)"

subsection \<open>The test \<open>float(score) < 0\<close>\<close>

text \<open>
  \<open>float(s)\<close> of Python 2.7 on a \<open>str\<close>: surrounding whitespace is dropped, then an
  optional sign is followed either by \<open>inf\<close>, \<open>infinity\<close> or \<open>nan\<close> in any case, or by a
  decimal numeral: digits with an optional point (a digit on one side of it at least) and an
  optional exponent \<open>e\<close> or \<open>E\<close> with an optional sign and at least one digit. Anything
  else raises \<open>ValueError\<close>. The script uses only the comparison of the result with 0, so the
  model keeps the sign and whether the double is zero: a numeral \<open>m * 10^k\<close> is rounded to
  zero exactly when it is at most \<open>2^-1075\<close> (half of the smallest subnormal double); a
  numeral beyond the range of double becomes an infinity, which keeps its sign; a NaN is not
  below 0.
\<close>

definition int_of_digits :: "string \<Rightarrow> int" where
  "int_of_digits ds = foldl (\<lambda>n c. 10 * n + (of_char c - 48)) 0 ds"

definition take_sign :: "string \<Rightarrow> bool \<times> string" where
  \<comment> \<open>an optional leading sign: whether it is a minus, and what follows\<close>
  "take_sign s =
     (case s of
        [] \<Rightarrow> (False, [])
      | c # cs \<Rightarrow> if c = CHR ''-'' then (True, cs) else if c = CHR ''+'' then (False, cs) else (False, s))"

definition parse_exponent :: "string \<Rightarrow> int option" where
  \<comment> \<open>what follows the mantissa: nothing, or a complete exponent; \<open>None\<close> for trailing junk\<close>
  "parse_exponent s =
     (case s of
        [] \<Rightarrow> Some 0
      | c # cs \<Rightarrow>
          if c = CHR ''e'' \<or> c = CHR ''E''
          then (let (neg, ds) = take_sign cs
                in if ds \<noteq> [] \<and> list_all is_digit ds
                   then Some (if neg then - int_of_digits ds else int_of_digits ds)
                   else None)
          else None)"

definition nonzero_double :: "int \<Rightarrow> int \<Rightarrow> bool" where
  \<comment> \<open>whether the double nearest to \<open>m * 10^k\<close> is not zero\<close>
  "nonzero_double m k \<longleftrightarrow>
     (if 0 \<le> k then 0 < m else 10 ^ nat (- k) < m * 2 ^ 1075)"

definition float_lt_zero :: "string \<Rightarrow> bool option" where
  \<comment> \<open>the value of \<open>float(s) < 0\<close>; \<open>None\<close> when \<open>float(s)\<close> raises \<open>ValueError\<close>\<close>
  "float_lt_zero s =
     (let (neg, r) = take_sign (strip s) in
      if lower r = ''inf'' \<or> lower r = ''infinity'' then Some neg
      else if lower r = ''nan'' then Some False
      else
        (let ip = takeWhile is_digit r;
             r1 = dropWhile is_digit r;
             fp = (case r1 of [] \<Rightarrow> [] | c # cs \<Rightarrow> if c = CHR ''.'' then takeWhile is_digit cs else []);
             r2 = (case r1 of [] \<Rightarrow> [] | c # cs \<Rightarrow> if c = CHR ''.'' then dropWhile is_digit cs else r1)
         in if ip = [] \<and> fp = [] then None
            else (case parse_exponent r2 of
                    None \<Rightarrow> None
                  | Some ex \<Rightarrow>
                      Some (neg \<and> nonzero_double (int_of_digits (ip @ fp)) (ex - int (length fp))))))"

section \<open>How the script ends\<close>

datatype exit =
    EndOfScript             \<comment> \<open>the last statement was executed: status 0\<close>
  | SysExit0                \<comment> \<open>\<open>sys.exit(0)\<close>\<close>
  | SysExit string          \<comment> \<open>\<open>sys.exit(msg)\<close>: \<open>msg\<close> goes to stderr, status 1\<close>
  | AssertionError string   \<comment> \<open>uncaught; the string is the message of the \<open>assert\<close>\<close>
  | ValueError string       \<comment> \<open>uncaught; the string is the argument of \<open>float\<close>\<close>
  | IOError string          \<comment> \<open>uncaught; the string is the path that could not be opened\<close>

fun exit_status :: "exit \<Rightarrow> nat" where
  "exit_status EndOfScript = 0"
| "exit_status SysExit0 = 0"
| "exit_status (SysExit msg) = 1"
| "exit_status (AssertionError msg) = 1"
| "exit_status (ValueError arg) = 1"
| "exit_status (IOError path) = 1"

definition hex_digit :: "nat \<Rightarrow> char" where
  "hex_digit n = (if n < 10 then char_of (48 + n) else char_of (87 + n))"

definition repr_char :: "char \<Rightarrow> char \<Rightarrow> string" where
  "repr_char q c =
     (if c = q \<or> c = CHR 0x5C then [CHR 0x5C, c]
      else if c = TAB then [CHR 0x5C, CHR ''t'']
      else if c = LF then [CHR 0x5C, CHR ''n'']
      else if c = CR then [CHR 0x5C, CHR ''r'']
      else if (of_char c :: nat) < 32 \<or> 127 \<le> (of_char c :: nat)
      then [CHR 0x5C, CHR ''x'', hex_digit (of_char c div 16), hex_digit (of_char c mod 16)]
      else [c])"

definition repr :: "string \<Rightarrow> string" where
  \<comment> \<open>\<open>repr(s)\<close> of a Python 2 \<open>str\<close>, which \<open>%r\<close> formats with\<close>
  "repr s =
     (let q = (if CHR 0x27 \<in> set s \<and> CHR 0x22 \<notin> set s then CHR 0x22 else CHR 0x27)
      in q # concat (map (repr_char q) s) @ [q])"

section \<open>The output normalizer \<open>clean_tabular\<close>\<close>

definition skipped :: "string \<Rightarrow> bool" where
  \<comment> \<open>the condition of the \<open>continue\<close>\<close>
  "skipped line \<longleftrightarrow>
     line = [] \<or> startswith line ''#'' \<or> startswith line ''Id; Description; Score;''"

definition split_fields :: "string \<Rightarrow> (string \<times> string \<times> string \<times> string) option" where
  \<comment> \<open>the body of the \<open>try\<close>: \<open>(id, descr, score, effective)\<close>, or \<open>None\<close> where an
      unpacking raises the \<open>ValueError\<close> that the \<open>except\<close> clause catches\<close>
  "split_fields line =
     (case rsplit_char CHR '';'' 2 (rstrip_crlf line) of
        [id_descr, score, effective] \<Rightarrow>
          if \<not> contains id_descr ''; '' \<and> endswith id_descr '';''
          then Some (butlast id_descr, [], score, effective)
          else (case split1 ''; '' id_descr of
                  [id', descr] \<Rightarrow> Some (id', descr, score, effective)
                | _ \<Rightarrow> None)
      | _ \<Rightarrow> None)"

definition parts :: "string \<times> string \<times> string \<times> string \<Rightarrow> string list" where
  \<comment> \<open>\<open>parts = [s.strip() for s in [id, descr, score, effective]]\<close>\<close>
  "parts f = (case f of (id', descr, score, effective) \<Rightarrow> map strip [id', descr, score, effective])"

definition row :: "string \<times> string \<times> string \<times> string \<Rightarrow> string" where
  \<comment> \<open>what is written for one record: \<open>"\t".join(parts) + "\n"\<close>\<close>
  "row f = join [TAB] (parts f) @ [LF]"

text \<open>
  The loop of \<open>clean_tabular\<close>. \<open>out\<close> is what has been written to \<open>out_handle\<close> so far,
  one element for each call of \<open>write\<close>; it is returned beside the result since the rows
  written before an exception stay written.
\<close>

fun clean_loop ::
  "string list \<Rightarrow> string list \<Rightarrow> nat \<Rightarrow> nat \<Rightarrow> nat \<Rightarrow> string list \<times> (exit + nat \<times> nat \<times> nat)"
where
  "clean_loop [] out count positive errors = (out, Inr (count, positive, errors))"
| "clean_loop (line # rest) out count positive errors =
     (if skipped line then clean_loop rest out count positive errors
      else if count_list line CHR '';'' < 3 then (out, Inl (AssertionError (repr line)))
      else
        (case split_fields line of
           None \<Rightarrow> (out, Inl (SysExit (''Problem parsing line:'' @ [LF] @ line @ [LF])))
         | Some (id', descr, score, effective) \<Rightarrow>
             (let out' = out @ [row (id', descr, score, effective)] in
              case float_lt_zero score of
                None \<Rightarrow> (out', Inl (ValueError score))
              | Some negative \<Rightarrow>
                  clean_loop rest out' (count + 1)
                    (if lower effective = ''true'' then positive + 1 else positive)
                    (if negative then errors + 1 else errors))))"

definition clean_tabular ::
  "string list \<Rightarrow> string list \<Rightarrow> string list \<times> (exit + nat \<times> nat \<times> nat)"
where
  \<comment> \<open>\<open>clean_tabular(raw_handle, out_handle)\<close>: the lines that iterating \<open>raw_handle\<close>
      yields, and what \<open>out_handle\<close> holds already\<close>
  "clean_tabular raw_handle out_handle = clean_loop raw_handle out_handle 0 0 0"

section \<open>The script\<close>

subsection \<open>What the script sees of its environment\<close>

datatype popen_result =
    SpawnError string           \<comment> \<open>\<open>subprocess.Popen\<close> raised; the string is \<open>str(err)\<close>\<close>
  | Completed int string string \<comment> \<open>return code, stdout and stderr of the child\<close>

text \<open>
  Files are kept by absolute path with their contents. \<open>abspath\<close> is \<open>os.path.abspath\<close>
  in the directory the script is started in; the tests \<open>os.path.isfile\<close> and
  \<open>os.path.isdir\<close> before the \<open>os.chdir\<close> resolve their argument with it. After the
  \<open>os.chdir\<close> the script uses only paths that \<open>abspath\<close> returned. \<open>java\<close> is the
  external program: given the argument vector and the files, it returns what
  \<open>Popen\<close> and \<open>communicate\<close> give and the files it leaves. Opening an existing file for
  reading and removing it are taken to succeed.
\<close>

record world =
  environ :: "string \<rightharpoonup> string"
  abspath :: "string \<Rightarrow> string"
  fs :: "string \<rightharpoonup> string"
  dirs :: "string \<Rightarrow> bool"
  listdir :: "string \<Rightarrow> string list"
  chdir_ok :: "string \<Rightarrow> bool"
  open_w_ok :: "string \<Rightarrow> bool"
  java :: "string list \<Rightarrow> (string \<rightharpoonup> string) \<Rightarrow> popen_result \<times> (string \<rightharpoonup> string)"

record outcome =
  status :: exit                      \<comment> \<open>how the script ended\<close>
  stdout :: "string list"             \<comment> \<open>the lines printed\<close>
  stderr :: "string list"             \<comment> \<open>the calls of \<open>sys.stderr.write\<close>\<close>
  invoked :: "string list list"       \<comment> \<open>the argument vectors handed to \<open>subprocess.Popen\<close>\<close>
  files :: "string \<rightharpoonup> string"   \<comment> \<open>the files left behind\<close>

definition isfile :: "world \<Rightarrow> string \<Rightarrow> bool" where
  "isfile w p \<longleftrightarrow> fs w (abspath w p) \<noteq> None"

definition isdir :: "world \<Rightarrow> string \<Rightarrow> bool" where
  "isdir w p \<longleftrightarrow> dirs w (abspath w p)"

definition path_join :: "string \<Rightarrow> string \<Rightarrow> string" where
  \<comment> \<open>\<open>os.path.join(a, b)\<close> of posixpath\<close>
  "path_join a b =
     (if startswith b ''/'' then b
      else if a = [] \<or> endswith a ''/'' then a @ b
      else a @ ''/'' @ b)"

function str_nat :: "nat \<Rightarrow> string" where
  "str_nat n = (if n < 10 then [char_of (48 + n)] else str_nat (n div 10) @ [char_of (48 + n mod 10)])"
  by pat_completeness auto
termination
  by (relation "measure (\<lambda>n. n)") auto

definition str_int :: "int \<Rightarrow> string" where
  \<comment> \<open>what \<open>%i\<close> formats an integer to\<close>
  "str_int i = (if i < 0 then ''-'' @ str_nat (nat (- i)) else str_nat (nat i))"

fun file_lines_from :: "string \<Rightarrow> string \<Rightarrow> string list" where
  "file_lines_from cur [] = (if cur = [] then [] else [cur])"
| "file_lines_from cur (c # cs) =
     (if c = LF then (cur @ [LF]) # file_lines_from [] cs else file_lines_from (cur @ [c]) cs)"

definition file_lines :: "string \<Rightarrow> string list" where
  \<comment> \<open>what iterating over an open file yields: its lines, each with its newline\<close>
  "file_lines content = file_lines_from [] content"

subsection \<open>The function \<open>run\<close>\<close>

definition run :: "world \<Rightarrow> string list \<Rightarrow> (string \<rightharpoonup> string) \<Rightarrow> exit option \<times> (string \<rightharpoonup> string)" where
  \<comment> \<open>\<open>run(cmd)\<close>: \<open>None\<close> when it returns, and the files the child leaves\<close>
  "run w cmd files0 =
     (case java w cmd files0 of
        (SpawnError err, files1) \<Rightarrow>
          (Some (SysExit (''Error invoking command:'' @ [LF] @ join '' '' cmd @ [LF, LF] @ err @ [LF])),
           files1)
      | (Completed return_code out err, files1) \<Rightarrow>
          (if return_code \<noteq> 0 \<or> startswith err ''Exception in thread''
           then
             (if err \<noteq> [] \<and> out \<noteq> []
              then Some (SysExit (''Return code '' @ str_int return_code @ '' from command:'' @ [LF]
                     @ join '' '' cmd @ [LF, LF] @ out @ [LF, LF] @ err))
              else Some (SysExit (''Return code '' @ str_int return_code @ '' from command:'' @ [LF]
                     @ join '' '' cmd @ [LF] @ err)))
           else None,
           files1))"

subsection \<open>The statements of the script, in their order\<close>

definition threshold_rejected :: "string \<Rightarrow> bool" where
  \<comment> \<open>the condition of the \<open>if\<close> on the threshold\<close>
  "threshold_rejected threshold \<longleftrightarrow>
     threshold \<notin> set [''selective'', ''sensitive''] \<and> \<not> startswith threshold ''cutoff=''"

definition stop :: "world \<Rightarrow> exit \<Rightarrow> outcome" where
  \<comment> \<open>the script ends before it has printed, spawned or written anything\<close>
  "stop w e = \<lparr>status = e, stdout = [], stderr = [], invoked = [], files = fs w\<rparr>"

definition summary :: "nat \<Rightarrow> nat \<Rightarrow> nat \<Rightarrow> string" where
  \<comment> \<open>the line printed after the normalization\<close>
  "summary count positive errors =
     (if errors \<noteq> 0
      then str_nat count @ '' sequences, '' @ str_nat positive @ '' positive, ''
           @ str_nat errors @ '' errors''
      else str_nat positive @ ''/'' @ str_nat count @ '' sequences positive'')"

definition header :: string where
  "header = ''#ID'' @ [TAB] @ ''Description'' @ [TAB] @ ''Score'' @ [TAB] @ ''Effective'' @ [LF]"

definition normalize ::
  "world \<Rightarrow> string list \<Rightarrow> (string \<rightharpoonup> string) \<Rightarrow> string \<Rightarrow> string \<Rightarrow> outcome"
where
  \<comment> \<open>from \<open>out_handle = open(tabular_file, "w")\<close> to the end of the script\<close>
  "normalize w cmd files1 temp_file tabular_file =
     (if \<not> open_w_ok w tabular_file
      then \<lparr>status = IOError tabular_file, stdout = [], stderr = [], invoked = [cmd], files = files1\<rparr>
      else
        (let files2 = files1(tabular_file \<mapsto> []) in
         case files2 temp_file of
           None \<Rightarrow>
             \<lparr>status = IOError temp_file, stdout = [], stderr = [], invoked = [cmd], files = files2\<rparr>
         | Some content \<Rightarrow>
             (case clean_tabular (file_lines content) [header] of
                (written, Inl e) \<Rightarrow>
                  \<lparr>status = e, stdout = [], stderr = [], invoked = [cmd],
                   files = files2(tabular_file \<mapsto> concat written)\<rparr>
              | (written, Inr (count, positive, errors)) \<Rightarrow>
                  \<lparr>status = (if count \<noteq> 0 \<and> count = errors
                             then SysExit ''All your sequences gave an error code''
                             else EndOfScript),
                   stdout = [summary count positive errors],
                   stderr = [],
                   invoked = [cmd],
                   files = (files2(tabular_file \<mapsto> concat written))(temp_file := None)\<rparr>)))"

definition launch ::
  "world \<Rightarrow> string \<Rightarrow> string \<Rightarrow> string \<Rightarrow> string
     \<Rightarrow> outcome + string list \<times> (string \<rightharpoonup> string) \<times> string \<times> string"
where
  \<comment> \<open>from the test of the installation folder to the test that the external program left its
      output: either the script ends there, or it goes on with the command it ran, the files,
      \<open>temp_file\<close> and \<open>tabular_file\<close>\<close>
  "launch w model threshold fasta_file tabular_file =
     (let effective_t3_dir = (case environ w ''EFFECTIVET3'' of None \<Rightarrow> ''/opt/EffectiveT3/'' | Some d \<Rightarrow> d);
          effective_t3_jar = path_join effective_t3_dir ''TTSS_GUI-1.0.1.jar'';
          module_dir = path_join effective_t3_dir ''module'';
          effective_t3_model = path_join module_dir model
      in
      if \<not> isdir w effective_t3_dir
      then Inl (stop w (SysExit (''Effective T3 folder not found: '' @ repr effective_t3_dir)))
      else if \<not> isfile w effective_t3_jar
      then Inl (stop w (SysExit (''Effective T3 JAR file not found: '' @ repr effective_t3_jar)))
      else if \<not> isdir w module_dir
      then Inl (stop w (SysExit (''Effective T3 module folder not found: '' @ repr module_dir)))
      else if \<not> isfile w effective_t3_model
      then Inl ((stop w (SysExit (''Effective T3 model JAR file not found: '' @ repr effective_t3_model)))
             \<lparr>stderr :=
                [''Contents of '' @ repr module_dir @ '' is ''
                   @ join '', '' (map repr (listdir w module_dir)) @ [LF],
                 ''Main JAR was found: '' @ repr effective_t3_jar @ [LF]]\<rparr>)
      else
        (let temp_file = abspath w (tabular_file @ ''.tmp'');
             tabular_file = abspath w tabular_file;
             fasta_file = abspath w fasta_file;
             cmd = [''java'', ''-jar'', effective_t3_jar,
                    ''-f'', fasta_file,
                    ''-m'', model,
                    ''-t'', threshold,
                    ''-o'', temp_file,
                    ''-q'']
         in
         if \<not> chdir_ok w effective_t3_dir
         then Inl (stop w (SysExit (''Could not change to Effective T3 folder: '' @ effective_t3_dir)))
         else
           (case run w cmd (fs w) of
              (Some e, files1) \<Rightarrow>
                Inl \<lparr>status = e, stdout = [], stderr = [], invoked = [cmd], files = files1\<rparr>
            | (None, files1) \<Rightarrow>
                if files1 temp_file = None
                then Inl \<lparr>status = SysExit ''ERROR - No output file from Effective T3'',
                          stdout = [], stderr = [], invoked = [cmd], files = files1\<rparr>
                else Inr (cmd, files1, temp_file, tabular_file))))"

definition invoke :: "world \<Rightarrow> string \<Rightarrow> string \<Rightarrow> string \<Rightarrow> string \<Rightarrow> outcome" where
  \<comment> \<open>the script from the test of the installation folder to its end\<close>
  "invoke w model threshold fasta_file tabular_file =
     (case launch w model threshold fasta_file tabular_file of
        Inl ended \<Rightarrow> ended
      | Inr (cmd, files1, temp_file, tabular_file) \<Rightarrow> normalize w cmd files1 temp_file tabular_file)"

definition main :: "world \<Rightarrow> string list \<Rightarrow> outcome" where
  \<comment> \<open>the script, run with \<open>sys.argv = argv\<close>\<close>
  "main w argv =
     (if ''-v'' \<in> set argv \<or> ''--version'' \<in> set argv
      then (stop w SysExit0)\<lparr>stdout := [''Wrapper v0.0.16, TTSS_GUI-1.0.1.jar'']\<rparr>
      else
        (case argv of
           [prog, model, threshold, fasta_file, tabular_file] \<Rightarrow>
             if \<not> isfile w fasta_file
             then stop w (SysExit (''Input FASTA file not found: '' @ fasta_file))
             else if threshold_rejected threshold
             then stop w (SysExit (''Threshold should be selective, sensitive, or cutoff=..., not ''
                                   @ repr threshold))
             else invoke w model threshold fasta_file tabular_file
         | _ \<Rightarrow>
             stop w (SysExit
               ''Require four arguments: model, threshold, input protein FASTA file & output tabular file'')))"

subsection \<open>A concrete environment\<close>

definition sample_world :: "string \<Rightarrow> world" where
  \<comment> \<open>an installation in the default folder with the model \<open>m.jar\<close>, an input \<open>/w/in.fa\<close>,
      the start directory \<open>/w\<close>, and an external program that succeeds and leaves \<open>raw\<close> in
      the file named after \<open>-o\<close>\<close>
  "sample_world raw =
     \<lparr>environ = Map.empty,
      abspath = (\<lambda>p. if startswith p ''/'' then p else ''/w/'' @ p),
      fs = [''/w/in.fa'' \<mapsto> ''>x'',
            ''/opt/EffectiveT3/TTSS_GUI-1.0.1.jar'' \<mapsto> [],
            ''/opt/EffectiveT3/module/m.jar'' \<mapsto> []],
      dirs = (\<lambda>p. p = ''/opt/EffectiveT3/'' \<or> p = ''/opt/EffectiveT3/module''),
      listdir = (\<lambda>p. if p = ''/opt/EffectiveT3/module'' then [''m.jar''] else []),
      chdir_ok = (\<lambda>p. True),
      open_w_ok = (\<lambda>p. True),
      java = (\<lambda>cmd files0. (Completed 0 [] [], files0(cmd ! 10 \<mapsto> raw)))\<rparr>"

subsection \<open>Notions used to state the accounting\<close>

definition records :: "string list \<Rightarrow> (string \<times> string \<times> string \<times> string) list" where
  \<comment> \<open>the fields \<open>(id, descr, score, effective)\<close> of the lines that are not skipped, as the
      \<open>try\<close> block leaves them, before they are stripped\<close>
  "records raw = List.map_filter split_fields (filter (\<lambda>line. \<not> skipped line) raw)"

definition well_formed :: "string \<Rightarrow> bool" where
  \<comment> \<open>a line with at least three semicolons whose fields can be split and whose score is
      accepted by \<open>float\<close>\<close>
  "well_formed line \<longleftrightarrow>
     3 \<le> count_list line CHR '';'' \<and>
     (case split_fields line of
        None \<Rightarrow> False
      | Some (id', descr, score, effective) \<Rightarrow> float_lt_zero score \<noteq> None)"

definition all_errors_raw :: string where
  \<comment> \<open>an output of the external program in which every record has a negative score\<close>
  "all_errors_raw =
     ''# Effective T3'' @ [LF] @ ''a; b; -1; false'' @ [LF] @ ''c;; -2.5; true'' @ [LF]"

definition bad_line_raw :: string where
  \<comment> \<open>an output of the external program whose third line holds two semicolons only\<close>
  "bad_line_raw =
     ''# Effective T3'' @ [LF] @ ''a; b; 1; false'' @ [LF] @ ''id; 0.5; true'' @ [LF]
     @ ''x; y; 1; true'' @ [LF]"

section \<open>Auxiliary facts\<close>

subsection \<open>Splitting at a character\<close>

lemma cut_at_first:
  assumes "c \<in> set s"
  shows "s = takeWhile (\<lambda>x. x \<noteq> c) s @ c # tl (dropWhile (\<lambda>x. x \<noteq> c) s)"
proof -
  from assms have ne: "dropWhile (\<lambda>x. x \<noteq> c) s \<noteq> []"
    by (simp add: dropWhile_eq_Nil_conv) 
  then have "hd (dropWhile (\<lambda>x. x \<noteq> c) s) = c"
    using hd_dropWhile [of "\<lambda>x. x \<noteq> c" s] by simp
  with ne have "dropWhile (\<lambda>x. x \<noteq> c) s = c # tl (dropWhile (\<lambda>x. x \<noteq> c) s)"
    by (cases "dropWhile (\<lambda>x. x \<noteq> c) s") simp_all
  then show ?thesis
    using takeWhile_dropWhile_id [of "\<lambda>x. x \<noteq> c" s] by simp
qed

lemma takeWhile_free: "c \<notin> set (takeWhile (\<lambda>x. x \<noteq> c) s)"
  by (induction s) auto

lemma split_char_2:
  assumes "2 \<le> count_list s c"
  shows "\<exists>a b d. split_char c 2 s = [a, b, d] \<and> s = a @ c # b @ c # d \<and> c \<notin> set a \<and> c \<notin> set b"
proof -
  let ?a = "takeWhile (\<lambda>x. x \<noteq> c) s"
  let ?r = "tl (dropWhile (\<lambda>x. x \<noteq> c) s)"
  let ?b = "takeWhile (\<lambda>x. x \<noteq> c) ?r"
  let ?d = "tl (dropWhile (\<lambda>x. x \<noteq> c) ?r)"
  from assms have in_s: "c \<in> set s"
    using count_list_0_iff [of s c] by auto
  then have s: "s = ?a @ c # ?r" by (rule cut_at_first)
  have "count_list s c = count_list (?a @ c # ?r) c" using s by simp
  then have "count_list s c = Suc (count_list ?r c)"
    using takeWhile_free [of c s] by simp
  with assms have in_r: "c \<in> set ?r"
    using count_list_0_iff [of ?r c] by auto
  then have r: "?r = ?b @ c # ?d" by (rule cut_at_first)
  have "split_char c 2 s = [?a, ?b, ?d]"
    using in_s in_r by (simp add: numeral_2_eq_2)
  moreover have "s = ?a @ c # ?b @ c # ?d" using s r by simp
  ultimately show ?thesis
    using takeWhile_free [of c s] takeWhile_free [of c ?r] by blast
qed

lemma rsplit_char_2:
  assumes "2 \<le> count_list s c"
  shows "\<exists>x y z. rsplit_char c 2 s = [x, y, z] \<and> s = x @ c # y @ c # z \<and> c \<notin> set y \<and> c \<notin> set z"
proof -
  from assms have "2 \<le> count_list (rev s) c" by simp
  then obtain a b d where sp: "split_char c 2 (rev s) = [a, b, d]"
    and eq: "rev s = a @ c # b @ c # d" and fr: "c \<notin> set a" "c \<notin> set b"
    using split_char_2 by blast
  from eq have "rev (rev s) = rev (a @ c # b @ c # d)" by simp
  then have "s = rev d @ c # rev b @ c # rev a" by simp
  moreover have "rsplit_char c 2 s = [rev d, rev b, rev a]"
    by (simp add: rsplit_char_def sp)
  ultimately show ?thesis using fr by simp
qed

lemma count_list_dropWhile: "\<not> P c \<Longrightarrow> count_list (dropWhile P xs) c = count_list xs c"
  by (induction xs) auto

lemma count_rstrip_crlf: "c \<noteq> CR \<Longrightarrow> c \<noteq> LF \<Longrightarrow> count_list (rstrip_crlf s) c = count_list s c"
  using count_list_dropWhile [of "\<lambda>c. c = CR \<or> c = LF" c "rev s"]
  by (simp add: rstrip_crlf_def)

lemma takeWhile_upto: "c \<notin> set a \<Longrightarrow> takeWhile (\<lambda>x. x \<noteq> c) (a @ c # r) = a"
  by (induction a) auto

lemma dropWhile_upto: "c \<notin> set a \<Longrightarrow> dropWhile (\<lambda>x. x \<noteq> c) (a @ c # r) = c # r"
  by (induction a) auto

lemma split_char_2_unique:
  assumes "c \<notin> set a" and "c \<notin> set b"
  shows "split_char c 2 (a @ c # b @ c # d) = [a, b, d]"
  using assms by (simp add: numeral_2_eq_2 takeWhile_upto dropWhile_upto)

lemma rsplit_char_2_unique:
  assumes "c \<notin> set y" and "c \<notin> set z"
  shows "rsplit_char c 2 (x @ c # y @ c # z) = [x, y, z]"
proof -
  have "rev (x @ c # y @ c # z) = rev z @ c # rev y @ c # rev x" by simp
  moreover have "split_char c 2 (rev z @ c # rev y @ c # rev x) = [rev z, rev y, rev x]"
    using assms by (intro split_char_2_unique) simp_all
  ultimately show ?thesis by (simp add: rsplit_char_def)
qed

lemma find_str_cut:
  "find_str sep s = Some i \<Longrightarrow> s = take i s @ sep @ drop (i + length sep) s"
proof (induction s arbitrary: i)
  case Nil
  then show ?case by (simp split: if_splits)
next
  case (Cons x xs)
  show ?case
  proof (cases "startswith (x # xs) sep")
    case True
    with Cons.prems have "i = 0" by simp
    moreover from True have "x # xs = sep @ drop (length sep) (x # xs)"
      using append_take_drop_id [of "length sep" "x # xs"] by (simp add: startswith_def)
    ultimately show ?thesis by simp
  next
    case False
    with Cons.prems obtain j where j: "find_str sep xs = Some j" "i = Suc j" by auto
    from Cons.IH [OF j(1)] j(2) show ?thesis by simp
  qed
qed

lemma find_str_first:
  "find_str sep s = Some i \<Longrightarrow> sep \<noteq> [] \<Longrightarrow> find_str sep (take i s) = None"
proof (induction s arbitrary: i)
  case Nil
  then show ?case by simp
next
  case (Cons x xs)
  show ?case
  proof (cases "startswith (x # xs) sep")
    case True
    with Cons.prems show ?thesis by simp
  next
    case False
    with Cons.prems obtain j where j: "find_str sep xs = Some j" "i = Suc j" by auto
    have "\<not> startswith (x # take j xs) sep"
    proof
      assume s: "startswith (x # take j xs) sep"
      then have t: "take (length sep) (x # take j xs) = sep" by (simp add: startswith_def)
      then have "length (take (length sep) (x # take j xs)) = length sep" by simp
      then have le: "length sep \<le> Suc j" by simp
      have "take (length sep) (take (Suc j) (x # xs)) = take (length sep) (x # xs)"
        using le by (simp only: take_take min_absorb1)
      with t have "take (length sep) (x # xs) = sep" by simp
      with False show False by (simp add: startswith_def)
    qed
    with Cons.IH [OF j(1) Cons.prems(2)] j(2) show ?thesis by simp
  qed
qed

lemma endswith_butlast:
  assumes "endswith s [c]"
  shows "s = butlast s @ [c]"
proof -
  from assms have d: "drop (length s - 1) s = [c]" by (simp add: endswith_def)
  have "s = take (length s - 1) s @ drop (length s - 1) s" by simp
  with d show ?thesis by (simp add: butlast_conv_take)
qed

subsection \<open>The loop of the normalizer\<close>

lemma clean_loop_append:
  "clean_loop pre out c p e = (out', Inr (c', p', e')) \<Longrightarrow>
   clean_loop (pre @ rest) out c p e = clean_loop rest out' c' p' e'"
  by (induction pre arbitrary: out c p e)
     (auto simp: Let_def split: if_splits option.splits prod.splits)

lemma clean_loop_step:
  assumes "clean_loop (line # rest) out c p e = (out', Inr r)" and "\<not> skipped line"
  shows "\<exists>i d s eff neg.
           3 \<le> count_list line CHR '';'' \<and> split_fields line = Some (i, d, s, eff) \<and>
           float_lt_zero s = Some neg \<and>
           clean_loop rest (out @ [row (i, d, s, eff)]) (c + 1)
             (if lower eff = ''true'' then p + 1 else p) (if neg then e + 1 else e) = (out', Inr r)"
proof -
  from assms have n: "\<not> count_list line CHR '';'' < 3"
    by (cases "count_list line CHR '';'' < 3") simp_all
  with assms obtain f where f: "split_fields line = Some f"
    by (cases "split_fields line") simp_all
  obtain i d s eff where t: "f = (i, d, s, eff)" by (cases f) auto
  from assms n f t obtain neg where g: "float_lt_zero s = Some neg"
    by (cases "float_lt_zero s") (simp_all add: Let_def)
  from assms n f t g have
    "clean_loop rest (out @ [row (i, d, s, eff)]) (c + 1)
       (if lower eff = ''true'' then p + 1 else p) (if neg then e + 1 else e) = (out', Inr r)"
    by (simp add: Let_def)
  with n f t g show ?thesis by auto
qed

lemma clean_loop_bounds:
  "clean_loop ls out c p e = (out', Inr (c', p', e')) \<Longrightarrow> p \<le> c \<Longrightarrow> e \<le> c \<Longrightarrow>
   p' \<le> c' \<and> e' \<le> c'"
proof (induction ls arbitrary: out c p e)
  case Nil
  then show ?case by simp
next
  case (Cons line rest)
  show ?case
  proof (cases "skipped line")
    case True
    with Cons show ?thesis by simp
  next
    case False
    from clean_loop_step [OF Cons.prems(1) False] obtain i d s eff neg where
      r: "clean_loop rest (out @ [row (i, d, s, eff)]) (c + 1)
                (if lower eff = ''true'' then p + 1 else p) (if neg then e + 1 else e)
              = (out', Inr (c', p', e'))"
      by blast
    from Cons.prems(2,3) have "(if lower eff = ''true'' then p + 1 else p) \<le> c + 1"
      and "(if neg then e + 1 else e) \<le> c + 1" by auto
    with Cons.IH [OF r] show ?thesis by blast
  qed
qed

lemma clean_loop_written:
  "clean_loop ls out c p e = (out', Inr (c', p', e')) \<Longrightarrow>
   \<exists>rows. out' = out @ rows \<and> c' = c + length rows"
proof (induction ls arbitrary: out c p e)
  case Nil
  then show ?case by simp
next
  case (Cons line rest)
  show ?case
  proof (cases "skipped line")
    case True
    with Cons show ?thesis by simp
  next
    case False
    from clean_loop_step [OF Cons.prems(1) False] obtain i d s eff neg where
      r: "clean_loop rest (out @ [row (i, d, s, eff)]) (c + 1)
                (if lower eff = ''true'' then p + 1 else p) (if neg then e + 1 else e)
              = (out', Inr (c', p', e'))"
      by blast
    from Cons.IH [OF r] obtain rows where
      "out' = (out @ [row (i, d, s, eff)]) @ rows" "c' = (c + 1) + length rows" by blast
    then have "out' = out @ (row (i, d, s, eff) # rows) \<and> c' = c + length (row (i, d, s, eff) # rows)"
      by simp
    then show ?thesis by blast
  qed
qed

lemma clean_loop_accounting:
  assumes "\<forall>line \<in> set raw. skipped line \<or> well_formed line"
  shows "clean_loop raw out c p e =
           (out @ map row (records raw),
            Inr (c + length (records raw),
                 p + length (filter (\<lambda>(id', descr, score, effective). lower effective = ''true'') (records raw)),
                 e + length (filter (\<lambda>(id', descr, score, effective). float_lt_zero score = Some True) (records raw))))"
  using assms
proof (induction raw arbitrary: out c p e)
  case Nil
  then show ?case by (simp add: records_def List.map_filter_simps)
next
  case (Cons line rest)
  then have IH: "\<And>out c p e. clean_loop rest out c p e =
           (out @ map row (records rest),
            Inr (c + length (records rest),
                 p + length (filter (\<lambda>(id', descr, score, effective). lower effective = ''true'') (records rest)),
                 e + length (filter (\<lambda>(id', descr, score, effective). float_lt_zero score = Some True) (records rest))))"
    by simp
  show ?case
  proof (cases "skipped line")
    case True
    then have "records (line # rest) = records rest" by (simp add: records_def)
    with True IH show ?thesis by simp
  next
    case False
    with Cons.prems have wf: "well_formed line" by simp
    then obtain i d s eff neg where f: "split_fields line = Some (i, d, s, eff)"
      and n: "float_lt_zero s = Some neg" and c3: "\<not> count_list line CHR '';'' < 3"
      by (auto simp: well_formed_def split: option.splits)
    from False f have r: "records (line # rest) = (i, d, s, eff) # records rest"
      by (simp add: records_def List.map_filter_simps)
    show ?thesis
      using False c3 f n by (simp add: r IH Let_def)
  qed
qed

lemma records_length:
  assumes "\<forall>line \<in> set raw. skipped line \<or> well_formed line"
  shows "length (records raw) = length (filter (\<lambda>line. \<not> skipped line) raw)"
  using assms
proof (induction raw)
  case Nil
  then show ?case by (simp add: records_def List.map_filter_simps)
next
  case (Cons line rest)
  then have IH: "length (records rest) = length (filter (\<lambda>line. \<not> skipped line) rest)" by simp
  show ?case
  proof (cases "skipped line")
    case True
    with IH show ?thesis by (simp add: records_def)
  next
    case False
    with Cons.prems have "well_formed line" by simp
    then obtain f where "split_fields line = Some f"
      by (auto simp: well_formed_def split: option.splits)
    with False IH show ?thesis by (simp add: records_def List.map_filter_simps)
  qed
qed

lemma clean_loop_prefix: "\<exists>more. fst (clean_loop ls out c p e) = out @ more"
proof (induction ls arbitrary: out c p e)
  case Nil
  then show ?case by simp
next
  case (Cons line rest)
  show ?case
  proof (cases "skipped line \<or> count_list line CHR '';'' < 3")
    case True
    with Cons.IH [of out c p e] show ?thesis by auto
  next
    case False
    show ?thesis
    proof (cases "split_fields line")
      case None
      with False show ?thesis by simp
    next
      case (Some f)
      obtain i d s eff where f: "f = (i, d, s, eff)" by (cases f) auto
      show ?thesis
      proof (cases "float_lt_zero s")
        case None
        with False Some f show ?thesis by (simp add: Let_def)
      next
        case (Some neg)
        from Cons.IH [of "out @ [row (i, d, s, eff)]" "c + 1"
            "if lower eff = ''true'' then p + 1 else p" "if neg then e + 1 else e"]
        obtain more where
          "fst (clean_loop rest (out @ [row (i, d, s, eff)]) (c + 1)
             (if lower eff = ''true'' then p + 1 else p) (if neg then e + 1 else e))
           = out @ row (i, d, s, eff) # more" by auto
        with False \<open>split_fields line = Some f\<close> f Some show ?thesis by (simp add: Let_def)
      qed
    qed
  qed
qed

lemma clean_loop_row:
  assumes "\<not> skipped line" and "3 \<le> count_list line CHR '';''"
    and "split_fields line = Some f"
  shows "\<exists>more. fst (clean_loop (line # rest) out c p e) = out @ [row f] @ more"
proof -
  obtain i d s eff where f: "f = (i, d, s, eff)" by (cases f) auto
  show ?thesis
  proof (cases "float_lt_zero s")
    case None
    with assms f show ?thesis by (simp add: Let_def)
  next
    case (Some neg)
    from clean_loop_prefix [of rest "out @ [row (i, d, s, eff)]" "c + 1"
        "if lower eff = ''true'' then p + 1 else p" "if neg then e + 1 else e"]
    obtain more where
      "fst (clean_loop rest (out @ [row (i, d, s, eff)]) (c + 1)
         (if lower eff = ''true'' then p + 1 else p) (if neg then e + 1 else e))
       = out @ row (i, d, s, eff) # more" by auto
    with assms f Some show ?thesis by (simp add: Let_def)
  qed
qed

lemma row_fields:
  "row (i, d, s, eff) = strip i @ [TAB] @ strip d @ [TAB] @ strip s @ [TAB] @ strip eff @ [LF]"
  by (simp add: row_def parts_def)

lemma clean_tabular_bounds:
  "clean_tabular raw_handle out_handle = (written, Inr (count, positive, errors)) \<Longrightarrow>
   positive \<le> count \<and> errors \<le> count"
  using clean_loop_bounds [of raw_handle out_handle 0 0 0 written count positive errors]
  by (simp add: clean_tabular_def)

lemma both_counters_when_unpadded:
  assumes "\<not> skipped line" and "3 \<le> count_list line CHR '';''"
    and "split_fields line = Some (id', descr, score, effective)"
    and "float_lt_zero score = Some True" and "lower effective = ''true''"
  shows "clean_tabular [line] out = (out @ [row (id', descr, score, effective)], Inr (1, 1, 1))"
  using assms by (simp add: clean_tabular_def)

subsection \<open>The end of the script\<close>

lemma normalize_finished:
  assumes "open_w_ok w out_file"
    and "temp_file \<noteq> out_file"
    and "files_left temp_file = Some content"
    and "clean_tabular (file_lines content) [header] = (written, Inr (count, positive, errors))"
  shows "normalize w cmd files_left temp_file out_file =
           \<lparr>status = (if count \<noteq> 0 \<and> count = errors
                      then SysExit ''All your sequences gave an error code''
                      else EndOfScript),
            stdout = [summary count positive errors],
            stderr = [],
            invoked = [cmd],
            files = (files_left(out_file \<mapsto> concat written))(temp_file := None)\<rparr>"
  using assms by (simp add: normalize_def Let_def)

lemma normalize_aborted:
  assumes "open_w_ok w out_file"
    and "temp_file \<noteq> out_file"
    and "files_left temp_file = Some content"
    and "clean_tabular (file_lines content) [header] = (written, Inl e)"
  shows "normalize w cmd files_left temp_file out_file =
           \<lparr>status = e, stdout = [], stderr = [], invoked = [cmd],
            files = files_left(out_file \<mapsto> concat written)\<rparr>"
  using assms by (simp add: normalize_def Let_def)

lemma sample_launch:
  "launch (sample_world raw) ''m.jar'' ''selective'' ''in.fa'' ''out.tab'' =
     Inr ([''java'', ''-jar'', ''/opt/EffectiveT3/TTSS_GUI-1.0.1.jar'', ''-f'', ''/w/in.fa'',
           ''-m'', ''m.jar'', ''-t'', ''selective'', ''-o'', ''/w/out.tab.tmp'', ''-q''],
          (fs (sample_world raw))(''/w/out.tab.tmp'' \<mapsto> raw),
          ''/w/out.tab.tmp'', ''/w/out.tab'')"
  by (simp add: launch_def sample_world_def isdir_def isfile_def path_join_def startswith_def
        endswith_def run_def Let_def)

section \<open>Properties\<close>

subsection \<open>The right split\<close>

text \<open>
  C1. For every line that is not skipped and holds at least 3 semicolons, the normalizer cuts
  the line (without its trailing CR and LF) at its last two semicolons: the three pieces are
  the id with the description, the score and the classification, the last two pieces hold no
  semicolon and the first one holds the remaining ones. If the first piece neither holds
  \<open>; \<close> nor ends with a semicolon, \<open>clean_tabular\<close> ends with the \<open>sys.exit\<close> that echoes
  the line; otherwise the first piece is cut at its first \<open>; \<close>, or loses its last
  semicolon, and the row that \<open>clean_tabular\<close> writes next is made of the stripped id,
  description, score piece and classification piece. In particular the line
  \<open>id; part1;part2; 0.9; false\<close> is written as the row of the four fields \<open>id\<close>,
  \<open>part1;part2\<close>, \<open>0.9\<close> and \<open>false\<close>: the semicolon in the description is kept.
\<close>

theorem right_split_written:
  assumes "clean_tabular pre out = (out', Inr (count, positive, errors))"
    and "\<not> skipped line" and "3 \<le> count_list line CHR '';''"
  shows "(\<exists>id_descr score effective.
            rstrip_crlf line = id_descr @ '';'' @ score @ '';'' @ effective \<and>
            CHR '';'' \<in> set id_descr \<and> CHR '';'' \<notin> set score \<and> CHR '';'' \<notin> set effective \<and>
            (if \<not> contains id_descr ''; '' \<and> \<not> endswith id_descr '';''
             then clean_tabular (pre @ line # rest) out =
                    (out', Inl (SysExit (''Problem parsing line:'' @ [LF] @ line @ [LF])))
             else (\<exists>id' descr more.
                     (if contains id_descr ''; ''
                      then id_descr = id' @ ''; '' @ descr \<and> \<not> contains id' ''; ''
                      else id_descr = id' @ '';'' \<and> descr = []) \<and>
                     fst (clean_tabular (pre @ line # rest) out) =
                       out' @ [strip id' @ [TAB] @ strip descr @ [TAB] @ strip score @ [TAB]
                                 @ strip effective @ [LF]] @ more)))
         \<and> clean_tabular [''id; part1;part2; 0.9; false''] [] =
             ([''id'' @ [TAB] @ ''part1;part2'' @ [TAB] @ ''0.9'' @ [TAB] @ ''false'' @ [LF]],
              Inr (1, 0, 0))"
proof
  let ?s = "rstrip_crlf line"
  have cnt: "count_list ?s CHR '';'' = count_list line CHR '';''"
    by (rule count_rstrip_crlf) simp_all
  with assms(3) have "2 \<le> count_list ?s CHR '';''" by simp
  then obtain x y z where sp: "rsplit_char CHR '';'' 2 ?s = [x, y, z]"
    and eq: "?s = x @ CHR '';'' # y @ CHR '';'' # z"
    and fr: "CHR '';'' \<notin> set y" "CHR '';'' \<notin> set z"
    using rsplit_char_2 by blast
  from eq have "count_list ?s CHR '';'' = count_list (x @ CHR '';'' # y @ CHR '';'' # z) CHR '';''"
    by simp
  with fr have "count_list ?s CHR '';'' = count_list x CHR '';'' + 2" by simp
  with cnt assms(3) have inx: "CHR '';'' \<in> set x"
    using count_list_0_iff [of x "CHR '';''"] by auto
  have run: "clean_tabular (pre @ line # rest) out = clean_loop (line # rest) out' count positive errors"
    using assms(1) clean_loop_append [of pre out 0 0 0 out' count positive errors "line # rest"]
    by (simp add: clean_tabular_def)
  have n3: "\<not> count_list line CHR '';'' < 3" using assms(3) by simp
  have tail: "if \<not> contains x ''; '' \<and> \<not> endswith x '';''
             then clean_tabular (pre @ line # rest) out =
                    (out', Inl (SysExit (''Problem parsing line:'' @ [LF] @ line @ [LF])))
             else (\<exists>id' descr more.
                     (if contains x ''; ''
                      then x = id' @ ''; '' @ descr \<and> \<not> contains id' ''; ''
                      else x = id' @ '';'' \<and> descr = []) \<and>
                     fst (clean_tabular (pre @ line # rest) out) =
                       out' @ [strip id' @ [TAB] @ strip descr @ [TAB] @ strip y @ [TAB]
                                 @ strip z @ [LF]] @ more)"
  proof (cases "contains x ''; ''")
    case True
    then obtain i where i: "find_str ''; '' x = Some i" by (auto simp: contains_def)
    then have f: "split_fields line = Some (take i x, drop (i + 2) x, y, z)"
      using True by (simp add: split_fields_def sp split1_def)
    from find_str_cut [OF i] have c: "x = take i x @ ''; '' @ drop (i + 2) x" by simp
    from find_str_first [OF i] have "\<not> contains (take i x) ''; ''" by (simp add: contains_def)
    moreover from clean_loop_row [OF assms(2) assms(3) f, of rest out' count positive errors]
    obtain more where "fst (clean_tabular (pre @ line # rest) out) =
        out' @ [strip (take i x) @ [TAB] @ strip (drop (i + 2) x) @ [TAB] @ strip y @ [TAB]
                  @ strip z @ [LF]] @ more"
      by (auto simp: run row_fields)
    ultimately show ?thesis using True c by auto
  next
    case False
    show ?thesis
    proof (cases "endswith x '';''")
      case True
      with False have f: "split_fields line = Some (butlast x, [], y, z)"
        by (simp add: split_fields_def sp)
      from endswith_butlast [OF True] have c: "x = butlast x @ '';''" .
      from clean_loop_row [OF assms(2) assms(3) f, of rest out' count positive errors]
      obtain more where "fst (clean_tabular (pre @ line # rest) out) =
          out' @ [strip (butlast x) @ [TAB] @ strip [] @ [TAB] @ strip y @ [TAB]
                    @ strip z @ [LF]] @ more"
        by (auto simp: run row_fields)
      with False True c show ?thesis by auto
    next
      case False
      note no_end = this
      from \<open>\<not> contains x ''; ''\<close> have nf: "find_str ''; '' x = None"
        by (simp add: contains_def)
      have "split_fields line = None"
        by (simp add: split_fields_def sp split1_def nf no_end)
      with assms(2) n3 \<open>\<not> contains x ''; ''\<close> no_end show ?thesis by (simp add: run)
    qed
  qed
  from eq have "?s = x @ '';'' @ y @ '';'' @ z" by simp
  with inx fr tail show "\<exists>id_descr score effective.
            rstrip_crlf line = id_descr @ '';'' @ score @ '';'' @ effective \<and>
            CHR '';'' \<in> set id_descr \<and> CHR '';'' \<notin> set score \<and> CHR '';'' \<notin> set effective \<and>
            (if \<not> contains id_descr ''; '' \<and> \<not> endswith id_descr '';''
             then clean_tabular (pre @ line # rest) out =
                    (out', Inl (SysExit (''Problem parsing line:'' @ [LF] @ line @ [LF])))
             else (\<exists>id' descr more.
                     (if contains id_descr ''; ''
                      then id_descr = id' @ ''; '' @ descr \<and> \<not> contains id' ''; ''
                      else id_descr = id' @ '';'' \<and> descr = []) \<and>
                     fst (clean_tabular (pre @ line # rest) out) =
                       out' @ [strip id' @ [TAB] @ strip descr @ [TAB] @ strip score @ [TAB]
                                 @ strip effective @ [LF]] @ more))"
    by blast
next
  show "clean_tabular [''id; part1;part2; 0.9; false''] [] =
             ([''id'' @ [TAB] @ ''part1;part2'' @ [TAB] @ ''0.9'' @ [TAB] @ ''false'' @ [LF]],
              Inr (1, 0, 0))"
    by code_simp
qed

theorem right_split_written_witness:
  "clean_tabular [''# comment''] [] = ([], Inr (0, 0, 0)) \<and>
   \<not> skipped ''id; part1;part2; 0.9; false'' \<and>
   3 \<le> count_list ''id; part1;part2; 0.9; false'' CHR '';'' \<and>
   (\<exists>id_descr score effective.
      rstrip_crlf ''id; part1;part2; 0.9; false'' = id_descr @ '';'' @ score @ '';'' @ effective \<and>
      CHR '';'' \<in> set id_descr \<and> CHR '';'' \<notin> set score \<and> CHR '';'' \<notin> set effective) \<and>
   clean_tabular ([''# comment''] @ ''id; part1;part2; 0.9; false'' # []) [] =
     ([''id'' @ [TAB] @ ''part1;part2'' @ [TAB] @ ''0.9'' @ [TAB] @ ''false'' @ [LF]], Inr (1, 0, 0))"
proof -
  have h1: "clean_tabular [''# comment''] [] = ([], Inr (0, 0, 0))" by code_simp
  have h2: "\<not> skipped ''id; part1;part2; 0.9; false''" by code_simp
  have h3: "3 \<le> count_list ''id; part1;part2; 0.9; false'' CHR '';''" by simp
  have h4: "clean_tabular ([''# comment''] @ ''id; part1;part2; 0.9; false'' # []) [] =
     ([''id'' @ [TAB] @ ''part1;part2'' @ [TAB] @ ''0.9'' @ [TAB] @ ''false'' @ [LF]], Inr (1, 0, 0))"
    by code_simp
  from right_split_written [OF h1 h2 h3, of "[]"] have
    "\<exists>id_descr score effective.
      rstrip_crlf ''id; part1;part2; 0.9; false'' = id_descr @ '';'' @ score @ '';'' @ effective \<and>
      CHR '';'' \<in> set id_descr \<and> CHR '';'' \<notin> set score \<and> CHR '';'' \<notin> set effective"
    by blast
  with h1 h2 h3 h4 show ?thesis by blast
qed

subsection \<open>The accounting\<close>

text \<open>
  C2. On a stream in which every line is skipped or well formed, \<open>clean_tabular\<close> writes one
  row for each line that is not skipped, the count is the number of these lines and the errors
  are the number of records with a negative score (\<open>clean_loop_accounting\<close>,
  \<open>records_length\<close>). The positive count is not the number of records whose classification
  is \<open>true\<close> in any letter case: it counts the pieces that the right split leaves, before
  they are stripped, so a record written after \<open>; \<close> is never counted. On the stream below
  the two records have the classifications \<open>true\<close> and \<open>TRUE\<close>, and the positive
  count returned is 0.
\<close>

theorem positive_count_misses_padded_true:
  "list_all (\<lambda>line. skipped line \<or> well_formed line)
     [''# Effective T3'', ''Id; Description; Score; Effective'',
      ''a; b; 0.5; true'', ''c; d; -1; TRUE''] \<and>
   map parts (records
     [''# Effective T3'', ''Id; Description; Score; Effective'',
      ''a; b; 0.5; true'', ''c; d; -1; TRUE'']) =
     [[''a'', ''b'', ''0.5'', ''true''], [''c'', ''d'', ''-1'', ''TRUE'']] \<and>
   clean_tabular
     [''# Effective T3'', ''Id; Description; Score; Effective'',
      ''a; b; 0.5; true'', ''c; d; -1; TRUE''] [] =
     ([''a'' @ [TAB] @ ''b'' @ [TAB] @ ''0.5'' @ [TAB] @ ''true'' @ [LF],
       ''c'' @ [TAB] @ ''d'' @ [TAB] @ ''-1'' @ [TAB] @ ''TRUE'' @ [LF]], Inr (2, 0, 1))"
  by code_simp

subsection \<open>Every record an error record\<close>

text \<open>
  C3. When the script reaches the normalization, and \<open>clean_tabular\<close> returns a count that is
  positive and equal to the number of errors, the script ends with
  \<open>sys.exit("All your sequences gave an error code")\<close>, that is with status 1 and this
  message, after it has printed the summary; the output file holds the header row and
  \<open>count\<close> rows and stays in place, and the temporary file has been removed.
\<close>

theorem all_errors_exit_nonzero:
  assumes "argv = [prog, model, threshold, fasta_file, tabular_file]"
    and "''-v'' \<notin> set argv" and "''--version'' \<notin> set argv"
    and "isfile w fasta_file" and "\<not> threshold_rejected threshold"
    and "launch w model threshold fasta_file tabular_file = Inr (cmd, files_left, temp_file, out_file)"
    and "open_w_ok w out_file" and "temp_file \<noteq> out_file"
    and "files_left temp_file = Some content"
    and "clean_tabular (file_lines content) [header] = (written, Inr (count, positive, errors))"
    and "0 < count" and "count = errors"
  shows "status (main w argv) = SysExit ''All your sequences gave an error code''
         \<and> exit_status (status (main w argv)) = 1
         \<and> stdout (main w argv) = [summary count positive errors]
         \<and> files (main w argv) out_file = Some (concat written)
         \<and> (\<exists>rows. written = header # rows \<and> length rows = count)
         \<and> files (main w argv) temp_file = None"
proof -
  from assms(1-6) have m: "main w argv = normalize w cmd files_left temp_file out_file"
    by (simp add: main_def invoke_def)
  from assms(10) obtain rows where "written = [header] @ rows" "count = 0 + length rows"
    using clean_loop_written [of "file_lines content" "[header]" 0 0 0 written count positive errors]
    by (auto simp: clean_tabular_def)
  then have r: "\<exists>rows. written = header # rows \<and> length rows = count" by simp
  from assms(11,12) have c: "count \<noteq> 0 \<and> count = errors" by simp
  show ?thesis
    using r c assms(8)
      normalize_finished [of w out_file temp_file files_left content written count positive errors cmd,
        OF assms(7) assms(8) assms(9) assms(10)]
    by (simp add: m)
qed

theorem all_errors_exit_nonzero_witness:
  "launch (sample_world all_errors_raw) ''m.jar'' ''selective'' ''in.fa'' ''out.tab'' =
     Inr ([''java'', ''-jar'', ''/opt/EffectiveT3/TTSS_GUI-1.0.1.jar'', ''-f'', ''/w/in.fa'',
           ''-m'', ''m.jar'', ''-t'', ''selective'', ''-o'', ''/w/out.tab.tmp'', ''-q''],
          (fs (sample_world all_errors_raw))(''/w/out.tab.tmp'' \<mapsto> all_errors_raw),
          ''/w/out.tab.tmp'', ''/w/out.tab'') \<and>
   clean_tabular (file_lines all_errors_raw) [header] =
     ([header,
       ''a'' @ [TAB] @ ''b'' @ [TAB] @ ''-1'' @ [TAB] @ ''false'' @ [LF],
       ''c'' @ [TAB, TAB] @ ''-2.5'' @ [TAB] @ ''true'' @ [LF]], Inr (2, 0, 2)) \<and>
   status (main (sample_world all_errors_raw)
             [''effectiveT3.py'', ''m.jar'', ''selective'', ''in.fa'', ''out.tab'']) =
     SysExit ''All your sequences gave an error code'' \<and>
   exit_status (status (main (sample_world all_errors_raw)
             [''effectiveT3.py'', ''m.jar'', ''selective'', ''in.fa'', ''out.tab''])) = 1 \<and>
   files (main (sample_world all_errors_raw)
             [''effectiveT3.py'', ''m.jar'', ''selective'', ''in.fa'', ''out.tab'']) ''/w/out.tab'' =
     Some (concat [header,
       ''a'' @ [TAB] @ ''b'' @ [TAB] @ ''-1'' @ [TAB] @ ''false'' @ [LF],
       ''c'' @ [TAB, TAB] @ ''-2.5'' @ [TAB] @ ''true'' @ [LF]]) \<and>
   files (main (sample_world all_errors_raw)
             [''effectiveT3.py'', ''m.jar'', ''selective'', ''in.fa'', ''out.tab'']) ''/w/out.tab.tmp'' =
     None"
proof -
  let ?w = "sample_world all_errors_raw"
  let ?argv = "[''effectiveT3.py'', ''m.jar'', ''selective'', ''in.fa'', ''out.tab'']"
  have h1: "?argv = [''effectiveT3.py'', ''m.jar'', ''selective'', ''in.fa'', ''out.tab'']" by simp
  have h2: "''-v'' \<notin> set ?argv" by simp
  have h3: "''--version'' \<notin> set ?argv" by simp
  have h4: "isfile ?w ''in.fa''" by (simp add: isfile_def sample_world_def startswith_def)
  have h5: "\<not> threshold_rejected ''selective''" by (simp add: threshold_rejected_def)
  note h6 = sample_launch [of all_errors_raw]
  have h7: "open_w_ok ?w ''/w/out.tab''" by (simp add: sample_world_def)
  have h8: "''/w/out.tab.tmp'' \<noteq> ''/w/out.tab''" by simp
  have h9: "((fs ?w)(''/w/out.tab.tmp'' \<mapsto> all_errors_raw)) ''/w/out.tab.tmp'' = Some all_errors_raw"
    by simp
  have h10: "clean_tabular (file_lines all_errors_raw) [header] =
     ([header,
       ''a'' @ [TAB] @ ''b'' @ [TAB] @ ''-1'' @ [TAB] @ ''false'' @ [LF],
       ''c'' @ [TAB, TAB] @ ''-2.5'' @ [TAB] @ ''true'' @ [LF]], Inr (2, 0, 2))"
    by code_simp
  have h11: "(0::nat) < 2" by simp
  have h12: "(2::nat) = 2" by simp
  from all_errors_exit_nonzero [OF h1 h2 h3 h4 h5 h6 h7 h8 h9 h10 h11 h12] h6 h10
  show ?thesis by blast
qed

subsection \<open>Too few semicolons\<close>

text \<open>
  C4. A line of the output of the external program that is not skipped and holds fewer than 3
  semicolons is fatal: the \<open>assert\<close> in \<open>clean_tabular\<close> fails with the message
  \<open>repr(line)\<close>, which is the line between quotes with its control characters escaped,
  nothing catches the exception, so the script ends with status 1 and without its summary,
  and no row is written for that line: the output file holds the header and the rows of the
  lines before it, and no more.
\<close>

theorem too_few_semicolons_fatal:
  assumes "argv = [prog, model, threshold, fasta_file, tabular_file]"
    and "''-v'' \<notin> set argv" and "''--version'' \<notin> set argv"
    and "isfile w fasta_file" and "\<not> threshold_rejected threshold"
    and "launch w model threshold fasta_file tabular_file = Inr (cmd, files_left, temp_file, out_file)"
    and "open_w_ok w out_file" and "temp_file \<noteq> out_file"
    and "files_left temp_file = Some content"
    and "file_lines content = pre @ line # rest"
    and "clean_tabular pre [header] = (written, Inr (count, positive, errors))"
    and "\<not> skipped line"
    and "count_list line CHR '';'' < 3"
  shows "clean_tabular (file_lines content) [header] = (written, Inl (AssertionError (repr line)))
         \<and> status (main w argv) = AssertionError (repr line)
         \<and> exit_status (status (main w argv)) = 1
         \<and> stdout (main w argv) = []
         \<and> files (main w argv) out_file = Some (concat written)"
proof -
  from assms(1-6) have m: "main w argv = normalize w cmd files_left temp_file out_file"
    by (simp add: main_def invoke_def)
  have c: "clean_tabular (file_lines content) [header] = (written, Inl (AssertionError (repr line)))"
    using assms(11-13)
      clean_loop_append [of pre "[header]" 0 0 0 written count positive errors "line # rest"]
    by (simp add: clean_tabular_def assms(10))
  show ?thesis
    using c normalize_aborted [of w out_file temp_file files_left content written
        "AssertionError (repr line)" cmd, OF assms(7) assms(8) assms(9) c]
    by (simp add: m)
qed

theorem too_few_semicolons_fatal_witness:
  "file_lines bad_line_raw =
     [''# Effective T3'' @ [LF], ''a; b; 1; false'' @ [LF]] @ (''id; 0.5; true'' @ [LF])
       # [''x; y; 1; true'' @ [LF]] \<and>
   clean_tabular [''# Effective T3'' @ [LF], ''a; b; 1; false'' @ [LF]] [header] =
     ([header, ''a'' @ [TAB] @ ''b'' @ [TAB] @ ''1'' @ [TAB] @ ''false'' @ [LF]], Inr (1, 0, 0)) \<and>
   \<not> skipped (''id; 0.5; true'' @ [LF]) \<and>
   count_list (''id; 0.5; true'' @ [LF]) CHR '';'' < 3 \<and>
   status (main (sample_world bad_line_raw)
             [''effectiveT3.py'', ''m.jar'', ''selective'', ''in.fa'', ''out.tab'']) =
     AssertionError (repr (''id; 0.5; true'' @ [LF])) \<and>
   repr (''id; 0.5; true'' @ [LF]) = [CHR 0x27] @ ''id; 0.5; true'' @ [CHR 0x5C, CHR ''n'', CHR 0x27] \<and>
   exit_status (status (main (sample_world bad_line_raw)
             [''effectiveT3.py'', ''m.jar'', ''selective'', ''in.fa'', ''out.tab''])) = 1 \<and>
   stdout (main (sample_world bad_line_raw)
             [''effectiveT3.py'', ''m.jar'', ''selective'', ''in.fa'', ''out.tab'']) = [] \<and>
   files (main (sample_world bad_line_raw)
             [''effectiveT3.py'', ''m.jar'', ''selective'', ''in.fa'', ''out.tab'']) ''/w/out.tab'' =
     Some (concat [header, ''a'' @ [TAB] @ ''b'' @ [TAB] @ ''1'' @ [TAB] @ ''false'' @ [LF]])"
proof -
  let ?w = "sample_world bad_line_raw"
  let ?argv = "[''effectiveT3.py'', ''m.jar'', ''selective'', ''in.fa'', ''out.tab'']"
  have h1: "?argv = [''effectiveT3.py'', ''m.jar'', ''selective'', ''in.fa'', ''out.tab'']" by simp
  have h2: "''-v'' \<notin> set ?argv" by simp
  have h3: "''--version'' \<notin> set ?argv" by simp
  have h4: "isfile ?w ''in.fa''" by (simp add: isfile_def sample_world_def startswith_def)
  have h5: "\<not> threshold_rejected ''selective''" by (simp add: threshold_rejected_def)
  note h6 = sample_launch [of bad_line_raw]
  have h7: "open_w_ok ?w ''/w/out.tab''" by (simp add: sample_world_def)
  have h8: "''/w/out.tab.tmp'' \<noteq> ''/w/out.tab''" by simp
  have h9: "((fs ?w)(''/w/out.tab.tmp'' \<mapsto> bad_line_raw)) ''/w/out.tab.tmp'' = Some bad_line_raw"
    by simp
  have h10: "file_lines bad_line_raw =
     [''# Effective T3'' @ [LF], ''a; b; 1; false'' @ [LF]] @ (''id; 0.5; true'' @ [LF])
       # [''x; y; 1; true'' @ [LF]]"
    by code_simp
  have h11: "clean_tabular [''# Effective T3'' @ [LF], ''a; b; 1; false'' @ [LF]] [header] =
     ([header, ''a'' @ [TAB] @ ''b'' @ [TAB] @ ''1'' @ [TAB] @ ''false'' @ [LF]], Inr (1, 0, 0))"
    by code_simp
  have h12: "\<not> skipped (''id; 0.5; true'' @ [LF])" by code_simp
  have h13: "count_list (''id; 0.5; true'' @ [LF]) CHR '';'' < 3" by simp
  have h14: "repr (''id; 0.5; true'' @ [LF]) =
     [CHR 0x27] @ ''id; 0.5; true'' @ [CHR 0x5C, CHR ''n'', CHR 0x27]" by code_simp
  from too_few_semicolons_fatal [OF h1 h2 h3 h4 h5 h6 h7 h8 h9 h10 h11 h12 h13]
    h10 h11 h12 h13 h14
  show ?thesis by blast
qed

subsection \<open>The threshold\<close>

text \<open>
  C5. For a command line of four arguments without a version flag, the threshold is accepted
  if and only if it is \<open>selective\<close>, is \<open>sensitive\<close> or starts with \<open>cutoff=\<close>: an
  accepted threshold lets the script go on to the tests of the installation (when the input
  file exists), and any other value ends the script with status 1 before any program is
  spawned, with the message that names the value when the input file exists. So
  \<open>cutoff=0.5\<close> is accepted, and \<open>cutoff\<close> and \<open>aggressive\<close> are rejected.
\<close>

theorem threshold_validation:
  assumes "argv = [prog, model, threshold, fasta_file, tabular_file]"
    and "''-v'' \<notin> set argv" and "''--version'' \<notin> set argv"
  shows "if threshold = ''selective'' \<or> threshold = ''sensitive'' \<or> startswith threshold ''cutoff=''
         then \<not> threshold_rejected threshold \<and>
              (isfile w fasta_file \<longrightarrow> main w argv = invoke w model threshold fasta_file tabular_file)
         else threshold_rejected threshold \<and>
              exit_status (status (main w argv)) = 1 \<and> invoked (main w argv) = [] \<and>
              (isfile w fasta_file \<longrightarrow>
                 status (main w argv) =
                   SysExit (''Threshold should be selective, sensitive, or cutoff=..., not '' @ repr threshold))"
  using assms by (auto simp: main_def threshold_rejected_def stop_def)

theorem threshold_validation_witness:
  "exit_status (status (main (sample_world [])
      [''effectiveT3.py'', ''m.jar'', ''aggressive'', ''in.fa'', ''out.tab''])) = 1 \<and>
   invoked (main (sample_world [])
      [''effectiveT3.py'', ''m.jar'', ''aggressive'', ''in.fa'', ''out.tab'']) = [] \<and>
   status (main (sample_world [])
      [''effectiveT3.py'', ''m.jar'', ''aggressive'', ''in.fa'', ''out.tab'']) =
     SysExit (''Threshold should be selective, sensitive, or cutoff=..., not '' @ repr ''aggressive'') \<and>
   exit_status (status (main (sample_world [])
      [''effectiveT3.py'', ''m.jar'', ''cutoff'', ''in.fa'', ''out.tab''])) = 1 \<and>
   invoked (main (sample_world [])
      [''effectiveT3.py'', ''m.jar'', ''cutoff'', ''in.fa'', ''out.tab'']) = [] \<and>
   \<not> threshold_rejected ''cutoff=0.5'' \<and>
   main (sample_world []) [''effectiveT3.py'', ''m.jar'', ''cutoff=0.5'', ''in.fa'', ''out.tab''] =
     invoke (sample_world []) ''m.jar'' ''cutoff=0.5'' ''in.fa'' ''out.tab''"
proof -
  have f: "isfile (sample_world []) ''in.fa''"
    by (simp add: isfile_def sample_world_def startswith_def)
  have a: "\<not> (''aggressive'' = ''selective'' \<or> ''aggressive'' = ''sensitive'' \<or>
              startswith ''aggressive'' ''cutoff='')"
    by (simp add: startswith_def)
  have b: "\<not> (''cutoff'' = ''selective'' \<or> ''cutoff'' = ''sensitive'' \<or>
              startswith ''cutoff'' ''cutoff='')"
    by (simp add: startswith_def)
  have c: "''cutoff=0.5'' = ''selective'' \<or> ''cutoff=0.5'' = ''sensitive'' \<or>
              startswith ''cutoff=0.5'' ''cutoff=''"
    by (simp add: startswith_def)
  from threshold_validation [of "[''effectiveT3.py'', ''m.jar'', ''aggressive'', ''in.fa'', ''out.tab'']"
      "''effectiveT3.py''" "''m.jar''" "''aggressive''" "''in.fa''" "''out.tab''" "sample_world []"]
    threshold_validation [of "[''effectiveT3.py'', ''m.jar'', ''cutoff'', ''in.fa'', ''out.tab'']"
      "''effectiveT3.py''" "''m.jar''" "''cutoff''" "''in.fa''" "''out.tab''" "sample_world []"]
    threshold_validation [of "[''effectiveT3.py'', ''m.jar'', ''cutoff=0.5'', ''in.fa'', ''out.tab'']"
      "''effectiveT3.py''" "''m.jar''" "''cutoff=0.5''" "''in.fa''" "''out.tab''" "sample_world []"]
    f a b c
  show ?thesis by simp
qed

subsection \<open>The line \<open>id; descr; 1.5; true\<close>\<close>

text \<open>
  C6. The raw line \<open>id; descr; 1.5; true\<close> is written as the row
  \<open>id\tdescr\t1.5\ttrue\n\<close> and adds 1 to the count and 0 to the errors. It adds 0 to the
  positive count, not 1: the right split leaves the piece \<open> true\<close> with its leading blank
  in \<open>effective\<close>, the row is built from the stripped \<open>parts\<close>, and the test
  \<open>effective.lower() == "true"\<close> compares the piece that was not stripped.
\<close>

theorem line_true_not_counted_positive:
  "clean_tabular [''id; descr; 1.5; true''] [] =
     ([''id'' @ [TAB] @ ''descr'' @ [TAB] @ ''1.5'' @ [TAB] @ ''true'' @ [LF]], Inr (1, 0, 0))"
  by code_simp

subsection \<open>No description\<close>

text \<open>
  C7. When the part of a line before its last two semicolons holds no \<open>; \<close> and ends
  with a semicolon, \<open>clean_tabular\<close> takes the description to be empty and the id to be
  that part without its last semicolon: the row it writes for the line is the stripped id, an
  empty description, the stripped score and the stripped classification. The line
  \<open>myid;; 0.5; false\<close> is written as the row of \<open>myid\<close>, the empty string,
  \<open>0.5\<close> and \<open>false\<close>.
\<close>

theorem no_description_written:
  assumes "clean_tabular pre out = (out', Inr (count, positive, errors))"
    and "\<not> skipped line"
    and "rstrip_crlf line = id_descr @ '';'' @ score @ '';'' @ effective"
    and "CHR '';'' \<notin> set score" and "CHR '';'' \<notin> set effective"
    and "\<not> contains id_descr ''; ''" and "endswith id_descr '';''"
  shows "(\<exists>id' more.
            id_descr = id' @ '';'' \<and>
            fst (clean_tabular (pre @ line # rest) out) =
              out' @ [strip id' @ [TAB] @ [TAB] @ strip score @ [TAB] @ strip effective @ [LF]] @ more)
         \<and> clean_tabular [''myid;; 0.5; false''] [] =
             ([''myid'' @ [TAB] @ [TAB] @ ''0.5'' @ [TAB] @ ''false'' @ [LF]], Inr (1, 0, 0))"
proof
  from endswith_butlast [OF assms(7)] have c: "id_descr = butlast id_descr @ '';''" .
  have inx: "CHR '';'' \<in> set id_descr" by (subst c) simp
  from assms(3) have eq: "rstrip_crlf line = id_descr @ CHR '';'' # score @ CHR '';'' # effective"
    by simp
  have sp: "rsplit_char CHR '';'' 2 (rstrip_crlf line) = [id_descr, score, effective]"
    unfolding eq using assms(4,5) by (rule rsplit_char_2_unique)
  have "count_list line CHR '';'' = count_list (rstrip_crlf line) CHR '';''"
    by (rule count_rstrip_crlf [symmetric]) simp_all
  also have "\<dots> = count_list id_descr CHR '';'' + 2"
    using assms(4,5) by (simp add: eq)
  finally have c3: "3 \<le> count_list line CHR '';''"
    using inx count_list_0_iff [of id_descr "CHR '';''"] by auto
  have f: "split_fields line = Some (butlast id_descr, [], score, effective)"
    using assms(6,7) by (simp add: split_fields_def sp)
  have run: "clean_tabular (pre @ line # rest) out = clean_loop (line # rest) out' count positive errors"
    using assms(1) clean_loop_append [of pre out 0 0 0 out' count positive errors "line # rest"]
    by (simp add: clean_tabular_def)
  have e: "strip [] = []" by (simp add: strip_def)
  from clean_loop_row [OF assms(2) c3 f, of rest out' count positive errors]
  obtain more where "fst (clean_tabular (pre @ line # rest) out) =
      out' @ [strip (butlast id_descr) @ [TAB] @ [TAB] @ strip score @ [TAB]
                @ strip effective @ [LF]] @ more"
    by (auto simp: run row_fields e)
  with c show "\<exists>id' more.
            id_descr = id' @ '';'' \<and>
            fst (clean_tabular (pre @ line # rest) out) =
              out' @ [strip id' @ [TAB] @ [TAB] @ strip score @ [TAB] @ strip effective @ [LF]] @ more"
    by blast
next
  show "clean_tabular [''myid;; 0.5; false''] [] =
             ([''myid'' @ [TAB] @ [TAB] @ ''0.5'' @ [TAB] @ ''false'' @ [LF]], Inr (1, 0, 0))"
    by code_simp
qed

theorem no_description_written_witness:
  "clean_tabular [] [] = ([], Inr (0, 0, 0)) \<and>
   \<not> skipped ''myid;; 0.5; false'' \<and>
   rstrip_crlf ''myid;; 0.5; false'' = ''myid;'' @ '';'' @ '' 0.5'' @ '';'' @ '' false'' \<and>
   CHR '';'' \<notin> set '' 0.5'' \<and> CHR '';'' \<notin> set '' false'' \<and>
   \<not> contains ''myid;'' ''; '' \<and> endswith ''myid;'' '';'' \<and>
   (\<exists>id' more.
      ''myid;'' = id' @ '';'' \<and>
      fst (clean_tabular ([] @ ''myid;; 0.5; false'' # [''x; y; 1; true'']) []) =
        [] @ [strip id' @ [TAB] @ [TAB] @ strip '' 0.5'' @ [TAB] @ strip '' false'' @ [LF]] @ more)"
proof -
  have h1: "clean_tabular [] [] = ([], Inr (0, 0, 0))" by (simp add: clean_tabular_def)
  have h2: "\<not> skipped ''myid;; 0.5; false''" by code_simp
  have h3: "rstrip_crlf ''myid;; 0.5; false'' = ''myid;'' @ '';'' @ '' 0.5'' @ '';'' @ '' false''"
    by code_simp
  have h4: "CHR '';'' \<notin> set '' 0.5''" by simp
  have h5: "CHR '';'' \<notin> set '' false''" by simp
  have h6: "\<not> contains ''myid;'' ''; ''" by code_simp
  have h7: "endswith ''myid;'' '';''" by code_simp
  from no_description_written [OF h1 h2 h3 h4 h5 h6 h7, of "[''x; y; 1; true'']"]
    h1 h2 h3 h4 h5 h6 h7
  show ?thesis by blast
qed

subsection \<open>The version flag\<close>

text \<open>
  C8. If \<open>-v\<close> or \<open>--version\<close> is among the command-line arguments, the script prints the
  fixed version string and exits with status 0, whatever the other arguments are: nothing is
  written to stderr, no program is spawned and no file is touched, since the test comes before
  the tests of the number of arguments, of the threshold and of the file system.
\<close>

theorem version_flag_first:
  assumes "''-v'' \<in> set argv \<or> ''--version'' \<in> set argv"
  shows "main w argv =
           \<lparr>status = SysExit0, stdout = [''Wrapper v0.0.16, TTSS_GUI-1.0.1.jar''],
            stderr = [], invoked = [], files = fs w\<rparr>
         \<and> exit_status (status (main w argv)) = 0"
  using assms by (simp add: main_def stop_def)

theorem version_flag_first_witness:
  "(''-v'' \<in> set [''effectiveT3.py'', ''aggressive'', ''-v''] \<or>
    ''--version'' \<in> set [''effectiveT3.py'', ''aggressive'', ''-v'']) \<and>
   main (sample_world []) [''effectiveT3.py'', ''aggressive'', ''-v''] =
     \<lparr>status = SysExit0, stdout = [''Wrapper v0.0.16, TTSS_GUI-1.0.1.jar''],
      stderr = [], invoked = [], files = fs (sample_world [])\<rparr> \<and>
   exit_status (status (main (sample_world []) [''effectiveT3.py'', ''aggressive'', ''-v''])) = 0"
  using version_flag_first [of "[''effectiveT3.py'', ''aggressive'', ''-v'']" "sample_world []"]
  by simp

subsection \<open>A score that is not a number\<close>

text \<open>
  C9. The \<open>try\<close> block covers the splitting of the fields only. For a line that is not
  skipped, holds at least 3 semicolons and whose fields are split, but whose score \<open>float\<close>
  rejects, \<open>clean_tabular\<close> ends with the \<open>ValueError\<close> of \<open>float\<close>, which is not the
  \<open>sys.exit\<close> of the \<open>except\<close> clause, and the row of the line has been written before.
  The line \<open>id; descr; abc; true\<close> is such a line.
\<close>

theorem bad_score_uncaught:
  assumes "clean_tabular pre out = (out', Inr (count, positive, errors))"
    and "\<not> skipped line"
    and "3 \<le> count_list line CHR '';''"
    and "split_fields line = Some (id', descr, score, effective)"
    and "float_lt_zero score = None"
  shows "clean_tabular (pre @ line # rest) out =
           (out' @ [row (id', descr, score, effective)], Inl (ValueError score))
         \<and> ValueError score \<noteq> SysExit (''Problem parsing line:'' @ [LF] @ line @ [LF])
         \<and> exit_status (ValueError score) = 1"
  using assms clean_loop_append [of pre out 0 0 0 out' count positive errors "line # rest"]
  by (simp add: clean_tabular_def)

theorem bad_score_uncaught_witness:
  "clean_tabular [] [] = ([], Inr (0, 0, 0)) \<and>
   \<not> skipped ''id; descr; abc; true'' \<and>
   3 \<le> count_list ''id; descr; abc; true'' CHR '';'' \<and>
   split_fields ''id; descr; abc; true'' = Some (''id'', ''descr'', '' abc'', '' true'') \<and>
   float_lt_zero '' abc'' = None \<and>
   clean_tabular ([] @ ''id; descr; abc; true'' # []) [] =
     ([] @ [row (''id'', ''descr'', '' abc'', '' true'')], Inl (ValueError '' abc'')) \<and>
   row (''id'', ''descr'', '' abc'', '' true'') =
     ''id'' @ [TAB] @ ''descr'' @ [TAB] @ ''abc'' @ [TAB] @ ''true'' @ [LF]"
proof -
  have h1: "clean_tabular [] [] = ([], Inr (0, 0, 0))" by (simp add: clean_tabular_def)
  have h2: "\<not> skipped ''id; descr; abc; true''" by code_simp
  have h3: "3 \<le> count_list ''id; descr; abc; true'' CHR '';''" by simp
  have h4: "split_fields ''id; descr; abc; true'' = Some (''id'', ''descr'', '' abc'', '' true'')"
    by code_simp
  have h5: "float_lt_zero '' abc'' = None" by code_simp
  have h6: "row (''id'', ''descr'', '' abc'', '' true'') =
     ''id'' @ [TAB] @ ''descr'' @ [TAB] @ ''abc'' @ [TAB] @ ''true'' @ [LF]" by code_simp
  from bad_score_uncaught [OF h1 h2 h3 h4 h5, of "[]"] h1 h2 h3 h4 h5 h6
  show ?thesis by blast
qed

subsection \<open>Bounds of the counters\<close>

text \<open>
  C10. Whenever \<open>clean_tabular\<close> returns, the positive count and the error count are at most
  the count (\<open>clean_tabular_bounds\<close>), and the two tests are independent. But a record
  whose score is negative and whose classification is \<open>true\<close> does not always add to both
  counters: it does when the classification piece carries no blank
  (\<open>both_counters_when_unpadded\<close>), and on the line \<open>id; descr; -1.5; true\<close>, as the
  external program writes it, the record adds 1 to the errors and 0 to the positive count,
  since the piece compared is \<open> true\<close> with its leading blank.
\<close>

theorem negative_padded_true_counts_error_only:
  "map_option parts (split_fields ''id; descr; -1.5; true'') =
     Some [''id'', ''descr'', ''-1.5'', ''true''] \<and>
   float_lt_zero '' -1.5'' = Some True \<and>
   clean_tabular [''id; descr; -1.5; true''] [] =
     ([''id'' @ [TAB] @ ''descr'' @ [TAB] @ ''-1.5'' @ [TAB] @ ''true'' @ [LF]], Inr (1, 0, 1))"
  by code_simp

end
